theory Spec2Isabelle
  imports Main "HOL-Library.Word" "HOL-Library.Sublist"
begin

unbundle bit_operations_syntax

section \<open>Data model\<close>

text \<open>
  A key is a \<open>std::string\<close>, a value a \<open>std::vector<char>\<close>. The counter of
  \<open>Store::add\<close> is an \<open>int64_t\<close>, a duration a count of milliseconds.
\<close>

type_synonym key = string
type_synonym byte = "8 word"
type_synonym bytes = "byte list"
type_synonym int64 = "64 word"
type_synonym milliseconds = int
type_synonym errno = nat

text \<open>
  The exceptions thrown by the stores: \<open>std::runtime_error\<close> with its message and
  \<open>std::system_error\<close> with the value of \<open>errno\<close>. Reading a vector out of range and
  overflowing a signed addition have undefined behaviour in C++; the model marks both with
  \<open>UndefinedBehaviour\<close> instead of choosing a result for them. What comes of reading a
  directory through \<open>std::ifstream\<close> depends on the platform (the stream may fail to
  open, the size taken from \<open>tellg\<close> may make the vector throw, or bytes that are no
  file's contents may come back); the model marks it with \<open>PlatformDependent\<close>.
\<close>

datatype error = RuntimeError string | SystemError errno | UndefinedBehaviour | PlatformDependent

definition ENOENT :: errno where
  "ENOENT = 2"

definition ENOTDIR :: errno where
  "ENOTDIR = 20"

definition EISDIR :: errno where
  "EISDIR = 21"

text \<open>
  A member function is a state transformer: it takes the store's state and returns either
  the thrown exception or the value, together with the state it leaves behind.
\<close>

type_synonym ('a, 's) op = "'s \<Rightarrow> (error + 'a) \<times> 's"

text \<open>
  \<open>wait\<close> blocks, so it runs against the events of its environment (what the other
  threads or processes do while it sleeps). With the events used up and the keys still
  missing it is \<open>Blocked\<close>: it has neither returned nor thrown.
\<close>

datatype outcome = Returned | Threw error | Blocked

text \<open>
  The virtual interface of \<open>class Store\<close>: one field per virtual member function.
  \<open>'s\<close> is the state of the backend and \<open>'e\<close> the type of the events \<open>wait\<close> sees.
\<close>

record ('s, 'e) store =
  st_set :: "key \<Rightarrow> bytes \<Rightarrow> (unit, 's) op"
  st_get :: "key \<Rightarrow> (bytes, 's) op"
  st_wait :: "key list \<Rightarrow> milliseconds \<Rightarrow> 'e list \<Rightarrow> 's \<Rightarrow> outcome \<times> 's"
  st_has_v2_support :: bool
  st_multi_get :: "key list \<Rightarrow> (bytes list, 's) op"
  st_multi_set :: "key list \<Rightarrow> bytes list \<Rightarrow> (unit, 's) op"
  st_append :: "key \<Rightarrow> bytes \<Rightarrow> (unit, 's) op"
  st_add :: "key \<Rightarrow> int64 \<Rightarrow> (int64, 's) op"

section \<open>The encoding of the counter\<close>

text \<open>
  \<open>memcpy\<close> between an \<open>int64_t\<close> and 8 chars copies the object representation, in the
  byte order of the host. Both orders are modelled; the host fixes one.
\<close>

datatype byte_order = LittleEndian | BigEndian

definition encode_le :: "int64 \<Rightarrow> bytes" where
  "encode_le w = map (\<lambda>i. ucast (drop_bit (8 * i) w)) [0..<8]"

fun decode_le :: "bytes \<Rightarrow> int64" where
  "decode_le [] = 0"
| "decode_le (b # bs) = ucast b OR push_bit 8 (decode_le bs)"

definition int64_to_bytes :: "byte_order \<Rightarrow> int64 \<Rightarrow> bytes" where
  "int64_to_bytes bo w = (case bo of LittleEndian \<Rightarrow> encode_le w | BigEndian \<Rightarrow> rev (encode_le w))"

definition bytes_to_int64 :: "byte_order \<Rightarrow> bytes \<Rightarrow> int64" where
  "bytes_to_int64 bo bs = (case bo of LittleEndian \<Rightarrow> decode_le bs | BigEndian \<Rightarrow> decode_le (rev bs))"

definition sizeof_int64 :: nat where
  "sizeof_int64 = 8"

section \<open>The generic defaults of class Store\<close>

definition Store_has_v2_support :: bool where
  "Store_has_v2_support = False"

text \<open>
  \<open>Store::multi_get\<close>: one call of the virtual \<open>get\<close> per key, in order; an exception
  of \<open>get\<close> ends the loop and propagates.
\<close>

fun Store_multi_get :: "(key \<Rightarrow> (bytes, 's) op) \<Rightarrow> key list \<Rightarrow> (bytes list, 's) op" where
  "Store_multi_get g [] s = (Inr [], s)"
| "Store_multi_get g (k # ks) s =
     (case g k s of
        (Inl e, s') \<Rightarrow> (Inl e, s')
      | (Inr v, s') \<Rightarrow>
          (case Store_multi_get g ks s' of
             (Inl e, s'') \<Rightarrow> (Inl e, s'')
           | (Inr vs, s'') \<Rightarrow> (Inr (v # vs), s'')))"

text \<open>
  \<open>Store::multi_set\<close>: \<open>for (i = 0; i < keys.size(); i++) set(keys[i], values[i])\<close>.
  The loop is bounded by \<open>keys\<close> alone and walks both vectors in step. No length is
  compared: values beyond \<open>keys.size()\<close> are never read, and \<open>values[i]\<close> with
  \<open>values\<close> used up is an out-of-range read.
\<close>

fun Store_multi_set :: "(key \<Rightarrow> bytes \<Rightarrow> (unit, 's) op) \<Rightarrow> key list \<Rightarrow> bytes list \<Rightarrow> (unit, 's) op" where
  "Store_multi_set st [] vs s = (Inr (), s)"
| "Store_multi_set st (k # ks) [] s = (Inl UndefinedBehaviour, s)"
| "Store_multi_set st (k # ks) (v # vs) s =
     (case st k v s of
        (Inl e, s') \<Rightarrow> (Inl e, s')
      | (Inr u, s') \<Rightarrow> Store_multi_set st ks vs s')"

text \<open>\<open>Store::append\<close>: read with \<open>get\<close>, insert the new bytes at the end, \<open>set\<close>.\<close>

definition Store_append ::
  "(key \<Rightarrow> (bytes, 's) op) \<Rightarrow> (key \<Rightarrow> bytes \<Rightarrow> (unit, 's) op) \<Rightarrow> key \<Rightarrow> bytes \<Rightarrow> (unit, 's) op" where
  "Store_append g st k v s =
     (case g k s of
        (Inl e, s') \<Rightarrow> (Inl e, s')
      | (Inr existing, s') \<Rightarrow> st k (existing @ v) s')"

text \<open>
  \<open>Store::add\<close>: \<open>get\<close> (an exception propagates before anything else happens), the
  counter read from the data when it has the size of an \<open>int64_t\<close> and zero otherwise, the
  signed addition, the 8 bytes of the sum written with \<open>set\<close>, the sum returned.
\<close>

definition add_overflows :: "int64 \<Rightarrow> int64 \<Rightarrow> bool" where
  "add_overflows a b = (sint a + sint b < - (2 ^ 63) \<or> 2 ^ 63 \<le> sint a + sint b)"

definition Store_add ::
  "byte_order \<Rightarrow> (key \<Rightarrow> (bytes, 's) op) \<Rightarrow> (key \<Rightarrow> bytes \<Rightarrow> (unit, 's) op) \<Rightarrow> key \<Rightarrow> int64 \<Rightarrow> (int64, 's) op" where
  "Store_add bo g st k v s =
     (case g k s of
        (Inl e, s') \<Rightarrow> (Inl e, s')
      | (Inr data, s') \<Rightarrow>
          (let current = (if length data = sizeof_int64 then bytes_to_int64 bo data else 0)
           in if add_overflows current v then (Inl UndefinedBehaviour, s')
              else (case st k (int64_to_bytes bo (current + v)) s' of
                      (Inl e, s'') \<Rightarrow> (Inl e, s'')
                    | (Inr u, s'') \<Rightarrow> (Inr (current + v), s''))))"

section \<open>The in-process store\<close>

text \<open>
  The state of a \<open>HashStore\<close> is its \<open>map_\<close>. Every member function holds the mutex
  for its whole body, so each is one atomic step on the map; only \<open>wait\<close> releases it,
  while it sleeps on the condition variable.
\<close>

type_synonym hash_map = "key \<rightharpoonup> bytes"

definition HashStore_set :: "key \<Rightarrow> bytes \<Rightarrow> (unit, hash_map) op" where
  "HashStore_set k data m = (Inr (), m(k \<mapsto> data))"

definition HashStore_get :: "key \<Rightarrow> (bytes, hash_map) op" where
  "HashStore_get k m =
     (case m k of
        None \<Rightarrow> (Inl (RuntimeError (''Key not found: '' @ k)), m)
      | Some v \<Rightarrow> (Inr v, m))"

text \<open>
  One event of a waiting \<open>HashStore::wait\<close>: the \<open>set\<close> calls the other threads made
  while the waiter slept with the mutex released, and how the sleep ended
  (\<open>std::cv_status\<close>; \<open>cv_.wait\<close> ignores it).
\<close>

datatype cv_status = no_timeout | timeout

type_synonym hash_event = "(key \<times> bytes) list \<times> cv_status"

fun other_sets :: "(key \<times> bytes) list \<Rightarrow> hash_map \<Rightarrow> hash_map" where
  "other_sets [] m = m"
| "other_sets ((k, v) # kvs) m = other_sets kvs (m(k \<mapsto> v))"

fun allFound :: "hash_map \<Rightarrow> key list \<Rightarrow> bool" where
  "allFound m [] = True"
| "allFound m (k # ks) = (if m k = None then False else allFound m ks)"

text \<open>
  \<open>HashStore::wait\<close>; \<open>kNoTimeout\<close> is declared outside the files at hand and is a
  parameter here.
\<close>

fun HashStore_wait ::
  "milliseconds \<Rightarrow> key list \<Rightarrow> milliseconds \<Rightarrow> hash_event list \<Rightarrow> hash_map \<Rightarrow> outcome \<times> hash_map" where
  "HashStore_wait kNoTimeout keys t [] m =
     (if allFound m keys then (Returned, m) else (Blocked, m))"
| "HashStore_wait kNoTimeout keys t ((sets, status) # evs) m =
     (if allFound m keys then (Returned, m)
      else if t \<noteq> kNoTimeout then
        (if status = timeout then (Threw (RuntimeError ''Wait timeout''), other_sets sets m)
         else HashStore_wait kNoTimeout keys t evs (other_sets sets m))
      else HashStore_wait kNoTimeout keys t evs (other_sets sets m))"

definition HashStore :: "byte_order \<Rightarrow> milliseconds \<Rightarrow> (hash_map, hash_event) store" where
  "HashStore bo kNoTimeout =
     \<lparr> st_set = HashStore_set,
       st_get = HashStore_get,
       st_wait = HashStore_wait kNoTimeout,
       st_has_v2_support = Store_has_v2_support,
       st_multi_get = Store_multi_get HashStore_get,
       st_multi_set = Store_multi_set HashStore_set,
       st_append = Store_append HashStore_get HashStore_set,
       st_add = Store_add bo HashStore_get HashStore_set \<rparr>"

section \<open>The filesystem store\<close>

text \<open>
  The state of a \<open>FileStore\<close> is the filesystem it shares with the other processes: the
  current directory of the process and the entries of the directory tree, each under
  the list of names that leads to it from the root. The root, \<open>[]\<close>, is a directory.
  An entry is a regular file with its contents, a directory, or \<open>Faulty\<close>: every call
  that reaches it fails with the given \<open>errno\<close> (no permission, an I/O error, ...).
  Links are not modelled.
\<close>

datatype node = RegularFile bytes | Directory | Faulty errno

record filesystem =
  cwd :: "string list"
  nodes :: "string list \<rightharpoonup> node"

definition node_at :: "filesystem \<Rightarrow> string list \<Rightarrow> node option" where
  "node_at fs p = (if p = [] then Some Directory else nodes fs p)"

text \<open>
  The operating system resolves a path name by name. \<open>split_slash\<close> cuts the path at
  every slash. Empty names (repeated, leading and trailing slashes) do not count, but a
  path that ends with a slash is resolved as if it ended with the name \<open>.\<close>: what it
  names must be a directory.
\<close>

fun split_slash :: "string \<Rightarrow> string list" where
  "split_slash [] = [[]]"
| "split_slash (c # cs) =
     (if c = CHR ''/'' then [] # split_slash cs
      else (case split_slash cs of
              [] \<Rightarrow> [[c]]
            | w # ws \<Rightarrow> (c # w) # ws))"

definition components :: "string \<Rightarrow> string list" where
  "components path =
     (let names = filter (\<lambda>w. w \<noteq> []) (split_slash path)
      in if names \<noteq> [] \<and> last path = CHR ''/'' then names @ [''.''] else names)"

text \<open>
  \<open>walk\<close> follows the names from the directory \<open>cur\<close>. Every name is looked up in
  a directory: when \<open>cur\<close> does not exist the walk fails with \<open>ENOENT\<close>, when it is a
  file with \<open>ENOTDIR\<close>. The name \<open>.\<close> stays, \<open>..\<close> goes to the parent (the root is its
  own parent), another name goes to the entry of that name, which may not exist.
\<close>

fun walk :: "filesystem \<Rightarrow> string list \<Rightarrow> string list \<Rightarrow> errno + string list" where
  "walk fs cur [] = Inr cur"
| "walk fs cur (c # cs) =
     (case node_at fs cur of
        None \<Rightarrow> Inl ENOENT
      | Some (RegularFile data) \<Rightarrow> Inl ENOTDIR
      | Some (Faulty e) \<Rightarrow> Inl e
      | Some Directory \<Rightarrow>
          (if c = ''.'' then walk fs cur cs
           else if c = ''..'' then walk fs (butlast cur) cs
           else walk fs (cur @ [c]) cs))"

text \<open>
  A path that begins with a slash is resolved from the root, another one from the current
  directory; the empty path names nothing.
\<close>

definition resolve :: "filesystem \<Rightarrow> string \<Rightarrow> errno + string list" where
  "resolve fs path =
     (if path = [] then Inl ENOENT
      else walk fs (if hd path = CHR ''/'' then [] else cwd fs) (components path))"

definition realPath :: "string \<Rightarrow> string \<Rightarrow> string" where
  "realPath basePath path = basePath @ ''/'' @ path"

text \<open>
  \<open>FileStore::set\<close>: open \<open>std::ofstream\<close> (creating or truncating), throw when it is
  not open, write the data. A directory cannot be opened for writing; a name that does
  not exist is created in its directory, which the walk has found. A failed walk fails
  the call with the \<open>errno\<close> of the walk (for a missing name followed by a slash
  systems differ in the number they report). The result of \<open>write\<close> is not looked at.
\<close>

definition FileStore_set :: "string \<Rightarrow> key \<Rightarrow> bytes \<Rightarrow> (unit, filesystem) op" where
  "FileStore_set basePath k data fs =
     (case resolve fs (realPath basePath k) of
        Inl e \<Rightarrow> (Inl (SystemError e), fs)
      | Inr p \<Rightarrow>
          (case node_at fs p of
             Some Directory \<Rightarrow> (Inl (SystemError EISDIR), fs)
           | Some (Faulty e) \<Rightarrow> (Inl (SystemError e), fs)
           | Some (RegularFile old) \<Rightarrow> (Inr (), fs\<lparr>nodes := (nodes fs)(p \<mapsto> RegularFile data)\<rparr>)
           | None \<Rightarrow> (Inr (), fs\<lparr>nodes := (nodes fs)(p \<mapsto> RegularFile data)\<rparr>)))"

text \<open>
  \<open>FileStore::get\<close>: open \<open>std::ifstream\<close> at the end, throw when it is not open,
  take the size from \<open>tellg\<close>, read that many bytes from the start.
\<close>

definition FileStore_get :: "string \<Rightarrow> key \<Rightarrow> (bytes, filesystem) op" where
  "FileStore_get basePath k fs =
     (case resolve fs (realPath basePath k) of
        Inl e \<Rightarrow> (Inl (SystemError e), fs)
      | Inr p \<Rightarrow>
          (case node_at fs p of
             None \<Rightarrow> (Inl (SystemError ENOENT), fs)
           | Some (Faulty e) \<Rightarrow> (Inl (SystemError e), fs)
           | Some Directory \<Rightarrow> (Inl PlatformDependent, fs)
           | Some (RegularFile data) \<Rightarrow> (Inr data, fs)))"

text \<open>\<open>stat\<close>: \<open>None\<close> for the return value 0, otherwise the \<open>errno\<close> it sets.\<close>

definition stat :: "filesystem \<Rightarrow> string \<Rightarrow> errno option" where
  "stat fs path =
     (case resolve fs path of
        Inl e \<Rightarrow> Some e
      | Inr p \<Rightarrow>
          (case node_at fs p of
             None \<Rightarrow> Some ENOENT
           | Some (Faulty e) \<Rightarrow> Some e
           | Some Directory \<Rightarrow> None
           | Some (RegularFile data) \<Rightarrow> None))"

text \<open>
  The inner loop of \<open>FileStore::wait\<close>: \<open>Inr ready\<close>, or the \<open>system_error\<close> thrown
  for a failure of \<open>stat\<close> other than \<open>ENOENT\<close>.
\<close>

fun check_ready :: "string \<Rightarrow> filesystem \<Rightarrow> key list \<Rightarrow> error + bool" where
  "check_ready basePath fs [] = Inr True"
| "check_ready basePath fs (k # ks) =
     (case stat fs (realPath basePath k) of
        None \<Rightarrow> check_ready basePath fs ks
      | Some e \<Rightarrow> (if e = ENOENT then Inr False else Inl (SystemError e)))"

text \<open>
  One event of a polling \<open>FileStore::wait\<close>: the time elapsed since \<open>start\<close> that the
  clock shows after a failed poll, and what the other processes made of the entries of
  the tree during the sleep of 10 ms that follows (\<open>None\<close> removes an entry). Each poll
  sees one state of the filesystem.
\<close>

type_synonym file_event = "milliseconds \<times> (string list \<times> node option) list"

fun other_writes :: "(string list \<times> node option) list \<Rightarrow> filesystem \<Rightarrow> filesystem" where
  "other_writes [] fs = fs"
| "other_writes ((p, n) # pns) fs = other_writes pns (fs\<lparr>nodes := (nodes fs)(p := n)\<rparr>)"

fun FileStore_wait ::
  "string \<Rightarrow> key list \<Rightarrow> milliseconds \<Rightarrow> file_event list \<Rightarrow> filesystem \<Rightarrow> outcome \<times> filesystem" where
  "FileStore_wait basePath keys t [] fs =
     (case check_ready basePath fs keys of
        Inl e \<Rightarrow> (Threw e, fs)
      | Inr ready \<Rightarrow> (if ready then (Returned, fs) else (Blocked, fs)))"
| "FileStore_wait basePath keys t ((elapsed, writes) # evs) fs =
     (case check_ready basePath fs keys of
        Inl e \<Rightarrow> (Threw e, fs)
      | Inr ready \<Rightarrow>
          (if ready then (Returned, fs)
           else if elapsed > t then (Threw (RuntimeError ''Timeout waiting for keys''), fs)
           else FileStore_wait basePath keys t evs (other_writes writes fs)))"

definition FileStore :: "byte_order \<Rightarrow> string \<Rightarrow> (filesystem, file_event) store" where
  "FileStore bo basePath =
     \<lparr> st_set = FileStore_set basePath,
       st_get = FileStore_get basePath,
       st_wait = FileStore_wait basePath,
       st_has_v2_support = Store_has_v2_support,
       st_multi_get = Store_multi_get (FileStore_get basePath),
       st_multi_set = Store_multi_set (FileStore_set basePath),
       st_append = Store_append (FileStore_get basePath) (FileStore_set basePath),
       st_add = Store_add bo (FileStore_get basePath) (FileStore_set basePath) \<rparr>"

section \<open>The prefix decorator\<close>

text \<open>
  A \<open>PrefixStore\<close> holds \<open>prefix_\<close> and a reference \<open>store_\<close> to the store it wraps; its
  state is the state of that store. \<open>Store::multi_get(keys)\<close> and its three siblings,
  called on the decorator, run the generic bodies with the decorator's own virtual
  \<open>get\<close> and \<open>set\<close>.
\<close>

definition PrefixStore_set :: "string \<Rightarrow> ('s, 'e) store \<Rightarrow> key \<Rightarrow> bytes \<Rightarrow> (unit, 's) op" where
  "PrefixStore_set pfx store k data = st_set store (pfx @ k) data"

definition PrefixStore_get :: "string \<Rightarrow> ('s, 'e) store \<Rightarrow> key \<Rightarrow> (bytes, 's) op" where
  "PrefixStore_get pfx store k = st_get store (pfx @ k)"

definition PrefixStore_wait ::
  "string \<Rightarrow> ('s, 'e) store \<Rightarrow> key list \<Rightarrow> milliseconds \<Rightarrow> 'e list \<Rightarrow> 's \<Rightarrow> outcome \<times> 's" where
  "PrefixStore_wait pfx store keys t = st_wait store (map (\<lambda>k. pfx @ k) keys) t"

definition PrefixStore_has_v2_support :: "('s, 'e) store \<Rightarrow> bool" where
  "PrefixStore_has_v2_support store = st_has_v2_support store"

definition PrefixStore_multi_get :: "string \<Rightarrow> ('s, 'e) store \<Rightarrow> key list \<Rightarrow> (bytes list, 's) op" where
  "PrefixStore_multi_get pfx store keys =
     (if \<not> st_has_v2_support store then Store_multi_get (PrefixStore_get pfx store) keys
      else st_multi_get store (map (\<lambda>k. pfx @ k) keys))"

definition PrefixStore_multi_set ::
  "string \<Rightarrow> ('s, 'e) store \<Rightarrow> key list \<Rightarrow> bytes list \<Rightarrow> (unit, 's) op" where
  "PrefixStore_multi_set pfx store keys values =
     (if \<not> st_has_v2_support store then Store_multi_set (PrefixStore_set pfx store) keys values
      else st_multi_set store (map (\<lambda>k. pfx @ k) keys) values)"

definition PrefixStore_append :: "string \<Rightarrow> ('s, 'e) store \<Rightarrow> key \<Rightarrow> bytes \<Rightarrow> (unit, 's) op" where
  "PrefixStore_append pfx store k data =
     (if \<not> st_has_v2_support store
      then Store_append (PrefixStore_get pfx store) (PrefixStore_set pfx store) k data
      else st_append store (pfx @ k) data)"

definition PrefixStore_add ::
  "byte_order \<Rightarrow> string \<Rightarrow> ('s, 'e) store \<Rightarrow> key \<Rightarrow> int64 \<Rightarrow> (int64, 's) op" where
  "PrefixStore_add bo pfx store k v =
     (if \<not> st_has_v2_support store
      then Store_add bo (PrefixStore_get pfx store) (PrefixStore_set pfx store) k v
      else st_add store (pfx @ k) v)"

definition PrefixStore :: "byte_order \<Rightarrow> string \<Rightarrow> ('s, 'e) store \<Rightarrow> ('s, 'e) store" where
  "PrefixStore bo pfx store =
     \<lparr> st_set = PrefixStore_set pfx store,
       st_get = PrefixStore_get pfx store,
       st_wait = PrefixStore_wait pfx store,
       st_has_v2_support = PrefixStore_has_v2_support store,
       st_multi_get = PrefixStore_multi_get pfx store,
       st_multi_set = PrefixStore_multi_set pfx store,
       st_append = PrefixStore_append pfx store,
       st_add = PrefixStore_add bo pfx store \<rparr>"

text \<open>
  What the specification compares the fallback of \<open>PrefixStore::multi_set\<close> with: two
  calls of \<open>set\<close> on the backing store, one after the other, the second only when the
  first did not throw.
\<close>

definition two_sequential_sets ::
  "('s, 'e) store \<Rightarrow> key \<Rightarrow> bytes \<Rightarrow> key \<Rightarrow> bytes \<Rightarrow> (unit, 's) op" where
  "two_sequential_sets store k1 v1 k2 v2 s =
     (case st_set store k1 v1 s of
        (Inl e, s') \<Rightarrow> (Inl e, s')
      | (Inr u, s') \<Rightarrow> st_set store k2 v2 s')"

text \<open>
  The filesystem of the examples: the directory \<open>/tmp/s\<close> exists and is empty, as the
  constructor of \<open>FileStore("/tmp/s")\<close> leaves it in an empty \<open>/tmp\<close>; the current
  directory is the root.
\<close>

definition tmp_s :: filesystem where
  "tmp_s = \<lparr> cwd = [], nodes = [[''tmp''] \<mapsto> Directory, [''tmp'', ''s''] \<mapsto> Directory] \<rparr>"


section \<open>Publish, then read\<close>

text \<open>
  C5. On the in-process store \<open>set(k, v)\<close> returns, whatever the map held before, and
  \<open>get(k)\<close> on the map it leaves returns exactly \<open>v\<close>.
\<close>

theorem HashStore_set_get:
  "\<exists>m'. HashStore_set k v m = (Inr (), m') \<and> HashStore_get k m' = (Inr v, m')"
  by (simp add: HashStore_set_def HashStore_get_def)

section \<open>Paths and entries\<close>

lemma node_at_root: "node_at fs [] = Some Directory"
  by (simp add: node_at_def)

lemma node_at_write:
  "node_at (fs\<lparr>nodes := (nodes fs)(p \<mapsto> n)\<rparr>) q
     = (if q = [] then Some Directory else if q = p then Some n else nodes fs q)"
  by (simp add: node_at_def)

text \<open>
  Writing a file where no directory is leaves every directory in place, so a walk that
  arrived somewhere before arrives there afterwards.
\<close>

lemma walk_same_directories:
  assumes "\<And>x. node_at fs x = Some Directory \<Longrightarrow> node_at fs' x = Some Directory"
  shows "walk fs cur cs = Inr q \<Longrightarrow> walk fs' cur cs = Inr q"
proof (induction cs arbitrary: cur)
  case Nil
  then show ?case by simp
next
  case (Cons c cs)
  from Cons.prems have dir: "node_at fs cur = Some Directory"
    by (auto split: option.splits node.splits)
  then have dir': "node_at fs' cur = Some Directory"
    by (rule assms)
  from Cons.prems dir have
    "(if c = ''.'' then walk fs cur cs
      else if c = ''..'' then walk fs (butlast cur) cs else walk fs (cur @ [c]) cs) = Inr q"
    by simp
  then show ?case
    using Cons.IH dir' by (simp split: if_splits)
qed

lemma walk_after_write:
  assumes "node_at fs p \<noteq> Some Directory" and "walk fs cur cs = Inr q"
  shows "walk (fs\<lparr>nodes := (nodes fs)(p \<mapsto> RegularFile d)\<rparr>) cur cs = Inr q"
proof (rule walk_same_directories [OF _ assms(2)])
  fix x
  assume "node_at fs x = Some Directory"
  with assms(1) show "node_at (fs\<lparr>nodes := (nodes fs)(p \<mapsto> RegularFile d)\<rparr>) x = Some Directory"
    by (auto simp: node_at_def split: if_splits)
qed

lemma resolve_after_write:
  assumes "node_at fs p \<noteq> Some Directory" and "resolve fs path = Inr q"
  shows "resolve (fs\<lparr>nodes := (nodes fs)(p \<mapsto> RegularFile d)\<rparr>) path = Inr q"
proof -
  from assms(2) have path: "path \<noteq> []"
    and w: "walk fs (if hd path = CHR ''/'' then [] else cwd fs) (components path) = Inr q"
    by (simp_all add: resolve_def split: if_splits)
  from walk_after_write [OF assms(1) w, of d] path show ?thesis
    by (simp add: resolve_def split: if_splits)
qed

lemma FileStore_set_Inr:
  assumes "FileStore_set base k data fs = (Inr u, fs')"
  shows "\<exists>p. resolve fs (realPath base k) = Inr p \<and> node_at fs p \<noteq> Some Directory \<and> p \<noteq> [] \<and>
             fs' = fs\<lparr>nodes := (nodes fs)(p \<mapsto> RegularFile data)\<rparr>"
proof -
  from assms obtain p where p: "resolve fs (realPath base k) = Inr p"
    by (cases "resolve fs (realPath base k)") (simp_all add: FileStore_set_def)
  with assms have "node_at fs p \<noteq> Some Directory \<and> fs' = fs\<lparr>nodes := (nodes fs)(p \<mapsto> RegularFile data)\<rparr>"
    by (auto simp: FileStore_set_def split: option.splits node.splits)
  moreover from this have "p \<noteq> []"
    using node_at_root [of fs] by auto
  ultimately show ?thesis
    using p by blast
qed


lemma FileStore_get_frame: "snd (FileStore_get base k fs) = fs"
  by (simp add: FileStore_get_def split: sum.split option.split node.split)

text \<open>The walks of the examples.\<close>

lemma resolve_tmp_s_k: "resolve tmp_s (realPath ''/tmp/s'' ''k'') = Inr [''tmp'', ''s'', ''k'']"
  by (simp add: resolve_def realPath_def components_def node_at_def tmp_s_def)

lemma stat_tmp_s_k: "stat tmp_s (realPath ''/tmp/s'' ''k'') = Some ENOENT"
  by (simp add: stat_def resolve_tmp_s_k) (simp add: node_at_def tmp_s_def)

section \<open>The counter\<close>

subsection \<open>Encoding and decoding are inverse\<close>

lemma ucast_ucast_byte: "(ucast (ucast (x::int64) :: byte) :: int64) = take_bit 8 x"
  by (rule bit_word_eqI) (auto simp: bit_simps)

lemma take_bit_split8:
  "take_bit 8 (x::int64) OR push_bit 8 (take_bit m (drop_bit 8 x)) = take_bit (8 + m) x"
  by (rule bit_word_eqI) (auto simp: bit_simps)

lemma decode_le_map:
  "decode_le (map (\<lambda>i. ucast (drop_bit (8 * i) w)) [k..<k + n]) = take_bit (8 * n) (drop_bit (8 * k) w)"
proof (induction n arbitrary: k)
  case 0
  then show ?case by simp
next
  case (Suc n)
  have upt: "[k..<k + Suc n] = k # [Suc k..<Suc k + n]"
    by (simp add: upt_conv_Cons)
  have drop: "drop_bit (8 * Suc k) w = drop_bit 8 (drop_bit (8 * k) w)"
    by (simp add: drop_bit_drop_bit add.commute)
  have "decode_le (map (\<lambda>i. ucast (drop_bit (8 * i) w)) [k..<k + Suc n])
      = take_bit 8 (drop_bit (8 * k) w) OR push_bit 8 (take_bit (8 * n) (drop_bit 8 (drop_bit (8 * k) w)))"
    unfolding upt using Suc.IH [of "Suc k"] by (simp only: list.map decode_le.simps ucast_ucast_byte drop)
  also have "\<dots> = take_bit (8 + 8 * n) (drop_bit (8 * k) w)"
    by (rule take_bit_split8)
  finally show ?case by simp
qed

lemma decode_encode_le: "decode_le (encode_le w) = w"
proof -
  have "decode_le (encode_le w) = take_bit 64 w"
    using decode_le_map [of w 0 8] by (simp add: encode_le_def)
  also have "\<dots> = w"
    by (rule bit_word_eqI) (simp add: bit_simps)
  finally show ?thesis .
qed

lemma length_int64_to_bytes: "length (int64_to_bytes bo w) = 8"
  by (cases bo) (simp_all add: int64_to_bytes_def encode_le_def)

lemma bytes_to_int64_to_bytes: "bytes_to_int64 bo (int64_to_bytes bo w) = w"
  by (cases bo) (simp_all add: bytes_to_int64_def int64_to_bytes_def decode_encode_le)

subsection \<open>What add does with what get returns\<close>

lemma add_overflows_zero: "\<not> add_overflows 0 d"
  using sint_range_size [of d] by (simp add: add_overflows_def word_size)

lemma Store_add_get_throws:
  "g k s = (Inl e, s') \<Longrightarrow> Store_add bo g st k d s = (Inl e, s')"
  by (simp add: Store_add_def)

lemma Store_add_default:
  assumes "g k s = (Inr data, s')" and "length data \<noteq> 8"
  shows "Store_add bo g st k d s =
           (case st k (int64_to_bytes bo d) s' of
              (Inl e, s'') \<Rightarrow> (Inl e, s'')
            | (Inr u, s'') \<Rightarrow> (Inr d, s''))"
  using assms by (simp add: Store_add_def sizeof_int64_def add_overflows_zero split: prod.split sum.split)

lemma Store_add_counter:
  assumes "g k s = (Inr (int64_to_bytes bo c), s')" and "\<not> add_overflows c d"
  shows "Store_add bo g st k d s =
           (case st k (int64_to_bytes bo (c + d)) s' of
              (Inl e, s'') \<Rightarrow> (Inl e, s'')
            | (Inr u, s'') \<Rightarrow> (Inr (c + d), s''))"
  using assms
  by (simp add: Store_add_def sizeof_int64_def length_int64_to_bytes bytes_to_int64_to_bytes
      split: prod.split sum.split)

lemma HashStore_add_absent:
  "m k = None \<Longrightarrow>
   Store_add bo HashStore_get HashStore_set k d m = (Inl (RuntimeError (''Key not found: '' @ k)), m)"
  by (rule Store_add_get_throws) (simp add: HashStore_get_def)

lemma HashStore_add_default:
  assumes "m k = Some data" and "length data \<noteq> 8"
  shows "Store_add bo HashStore_get HashStore_set k d m = (Inr d, m(k \<mapsto> int64_to_bytes bo d))"
proof -
  have "HashStore_get k m = (Inr data, m)"
    using assms(1) by (simp add: HashStore_get_def)
  from Store_add_default [of HashStore_get k m data m, OF this assms(2)] show ?thesis
    by (simp add: HashStore_set_def)
qed

lemma HashStore_add_counter:
  assumes "m k = Some (int64_to_bytes bo c)" and "\<not> add_overflows c d"
  shows "Store_add bo HashStore_get HashStore_set k d m = (Inr (c + d), m(k \<mapsto> int64_to_bytes bo (c + d)))"
proof -
  have "HashStore_get k m = (Inr (int64_to_bytes bo c), m)"
    using assms(1) by (simp add: HashStore_get_def)
  from Store_add_counter [of HashStore_get k m bo c m, OF this assms(2)] show ?thesis
    by (simp add: HashStore_set_def)
qed

lemma FileStore_add_absent:
  "stat fs (realPath base k) = Some ENOENT \<Longrightarrow>
   Store_add bo (FileStore_get base) (FileStore_set base) k d fs = (Inl (SystemError ENOENT), fs)"
  by (rule Store_add_get_throws)
     (auto simp: FileStore_get_def stat_def split: sum.splits option.splits node.splits)

lemma FileStore_add_default:
  assumes "resolve fs (realPath base k) = Inr p" and "node_at fs p = Some (RegularFile data)"
    and "length data \<noteq> 8"
  shows "Store_add bo (FileStore_get base) (FileStore_set base) k d fs =
           (Inr d, fs\<lparr>nodes := (nodes fs)(p \<mapsto> RegularFile (int64_to_bytes bo d))\<rparr>)"
proof -
  have "FileStore_get base k fs = (Inr data, fs)"
    using assms(1,2) by (simp add: FileStore_get_def)
  from Store_add_default [of "FileStore_get base" k fs data fs, OF this assms(3)] show ?thesis
    using assms(1,2) by (simp add: FileStore_set_def)
qed

subsection \<open>add on an absent key\<close>

text \<open>
  C1. For a key that is absent from the store, \<open>add(k, d)\<close> is to count from zero: to
  succeed, to return \<open>d\<close> and to leave the encoding of \<open>d\<close> under \<open>k\<close>. It does not.
  \<open>Store::add\<close> calls \<open>get\<close> before it reaches its zero default, and \<open>get\<close> throws
  for the absent key: from the empty in-process store \<open>add("k", 5)\<close> throws
  \<open>Key not found\<close>, in an empty directory of the filesystem store it throws the system
  error of \<open>ENOENT\<close>, and neither writes anything.
\<close>

theorem add_absent_key_throws:
  "st_add (HashStore bo kNoTimeout) ''k'' 5 Map.empty
     = (Inl (RuntimeError ''Key not found: k''), Map.empty) \<and>
   st_add (FileStore bo ''/tmp/s'') ''k'' 5 tmp_s = (Inl (SystemError ENOENT), tmp_s)"
  by (simp add: HashStore_def FileStore_def HashStore_add_absent FileStore_add_absent stat_tmp_s_k)

subsection \<open>add on a value of the wrong length\<close>

text \<open>
  C8. When the value stored under \<open>k\<close> has a length other than 8 bytes, \<open>add(k, d)\<close>
  raises no error: on the in-process store and on the filesystem store it returns \<open>d\<close>
  and stores under \<open>k\<close> the encoding of \<open>d\<close>, which is 8 bytes long and decodes to
  \<open>d\<close> in the byte order of the host.
\<close>

theorem add_wrong_length_is_zero:
  "length data \<noteq> 8 \<Longrightarrow>
   (m k = Some data \<longrightarrow>
      st_add (HashStore bo kNoTimeout) k d m = (Inr d, m(k \<mapsto> int64_to_bytes bo d))) \<and>
   (resolve fs (realPath base k) = Inr p \<and> node_at fs p = Some (RegularFile data) \<longrightarrow>
      st_add (FileStore bo base) k d fs
        = (Inr d, fs\<lparr>nodes := (nodes fs)(p \<mapsto> RegularFile (int64_to_bytes bo d))\<rparr>)) \<and>
   length (int64_to_bytes bo d) = 8 \<and> bytes_to_int64 bo (int64_to_bytes bo d) = d"
  by (simp add: HashStore_def FileStore_def HashStore_add_default FileStore_add_default
      length_int64_to_bytes bytes_to_int64_to_bytes)

theorem add_wrong_length_is_zero_witness:
  "length [1 :: byte, 2, 3] \<noteq> 8 \<and>
   [''k'' \<mapsto> [1, 2, 3]] ''k'' = Some [1, 2, 3] \<and>
   st_add (HashStore BigEndian 0) ''k'' (- 2) [''k'' \<mapsto> [1, 2, 3]]
     = (Inr (- 2), [''k'' \<mapsto> [255, 255, 255, 255, 255, 255, 255, 254]]) \<and>
   resolve (tmp_s\<lparr>nodes := (nodes tmp_s)([''tmp'', ''s'', ''k''] \<mapsto> RegularFile [1, 2, 3])\<rparr>)
     (realPath ''/tmp/s'' ''k'') = Inr [''tmp'', ''s'', ''k''] \<and>
   node_at (tmp_s\<lparr>nodes := (nodes tmp_s)([''tmp'', ''s'', ''k''] \<mapsto> RegularFile [1, 2, 3])\<rparr>)
     [''tmp'', ''s'', ''k''] = Some (RegularFile [1, 2, 3]) \<and>
   st_add (FileStore BigEndian ''/tmp/s'') ''k'' (- 2)
     (tmp_s\<lparr>nodes := (nodes tmp_s)([''tmp'', ''s'', ''k''] \<mapsto> RegularFile [1, 2, 3])\<rparr>)
     = (Inr (- 2),
        tmp_s\<lparr>nodes := (nodes tmp_s)([''tmp'', ''s'', ''k''] \<mapsto>
                 RegularFile [255, 255, 255, 255, 255, 255, 255, 254])\<rparr>)"
proof -
  let ?fs = "tmp_s\<lparr>nodes := (nodes tmp_s)([''tmp'', ''s'', ''k''] \<mapsto> RegularFile [1, 2, 3])\<rparr>"
  have enc: "int64_to_bytes BigEndian (- 2) = [255, 255, 255, 255, 255, 255, 255, 254]"
    by (simp add: int64_to_bytes_def encode_le_def upt_rec)
  have res: "resolve ?fs (realPath ''/tmp/s'' ''k'') = Inr [''tmp'', ''s'', ''k'']"
    by (rule resolve_after_write [OF _ resolve_tmp_s_k]) (simp add: node_at_def tmp_s_def)
  have node: "node_at ?fs [''tmp'', ''s'', ''k''] = Some (RegularFile [1, 2, 3])"
    by (simp add: node_at_def)
  show ?thesis
    using add_wrong_length_is_zero [of "[1, 2, 3]" "[''k'' \<mapsto> [1, 2, 3]]" "''k''" BigEndian 0 "- 2"
        ?fs "''/tmp/s''" "[''tmp'', ''s'', ''k'']"] res node
    by (simp add: enc)
qed

section \<open>Batches\<close>

lemma Store_multi_set_take:
  "length keys \<le> length vals \<Longrightarrow>
   Store_multi_set st keys vals s = Store_multi_set st keys (take (length keys) vals) s"
  by (induction st keys vals s rule: Store_multi_set.induct) (auto split: prod.split sum.split)

lemma HashStore_multi_set:
  "length keys \<le> length vals \<Longrightarrow>
   Store_multi_set HashStore_set keys vals m = (Inr (), other_sets (zip keys vals) m)"
  by (induction HashStore_set keys vals m rule: Store_multi_set.induct)
     (simp_all add: HashStore_set_def)

text \<open>
  \<open>multi_set\<close> with two values for one key raises nothing: it sets the key to the first
  value and returns.
\<close>

theorem multi_set_longer_values_counterexample:
  "st_multi_set (HashStore LittleEndian 0) [''a''] [[1], [2]] Map.empty = (Inr (), [''a'' \<mapsto> [1]])"
  by (simp add: HashStore_def HashStore_set_def)

text \<open>
  C3, amended. \<open>multi_set\<close> compares no lengths and raises no argument error. With at
  least as many values as keys it behaves as on the first \<open>keys.size()\<close> values, the
  surplus ignored: on the in-process store it succeeds, having set every \<open>keys[i]\<close> to
  \<open>values[i]\<close> in order. \<open>keys.size() == values.size()\<close> is left to the caller.
\<close>

theorem multi_set_no_length_check:
  "length keys \<le> length vals \<Longrightarrow>
   Store_multi_set st keys vals s = Store_multi_set st keys (take (length keys) vals) s \<and>
   st_multi_set (HashStore bo kNoTimeout) keys vals m = (Inr (), other_sets (zip keys vals) m)"
  by (simp add: HashStore_def HashStore_multi_set Store_multi_set_take [symmetric])

theorem multi_set_no_length_check_witness:
  "length [''a'', ''b''] \<le> length [[1], [2], [3 :: byte]] \<and>
   Store_multi_set HashStore_set [''a'', ''b''] [[1], [2], [3]] Map.empty
     = Store_multi_set HashStore_set [''a'', ''b''] [[1], [2]] Map.empty \<and>
   st_multi_set (HashStore LittleEndian 0) [''a'', ''b''] [[1], [2], [3]] Map.empty
     = (Inr (), [''a'' \<mapsto> [1], ''b'' \<mapsto> [2]])"
  using multi_set_no_length_check [of "[''a'', ''b'']" "[[1], [2], [3]]" HashStore_set Map.empty LittleEndian 0 Map.empty]
  by simp

section \<open>Prefixes\<close>

lemma HashStore_get_after_set_other:
  "k' \<noteq> k \<Longrightarrow> fst (HashStore_get k' (snd (HashStore_set k v m))) = fst (HashStore_get k' m)"
  by (simp add: HashStore_get_def HashStore_set_def split: option.split)

lemma append_not_prefix_neq:
  "\<not> prefix pA pB \<Longrightarrow> \<not> prefix pB pA \<Longrightarrow> pA @ x \<noteq> pB @ y"
  by (metis append_eq_append_conv2 prefixI)

text \<open>
  The prefixes \<open>a\<close> and \<open>ab\<close> are distinct, and yet the decorator with prefix \<open>ab\<close>
  reads under its key \<open>x\<close> what the decorator with prefix \<open>a\<close> has set under its key
  \<open>bx\<close>: both are the physical key \<open>abx\<close>.
\<close>

theorem prefix_overlap_counterexample:
  "''a'' \<noteq> ''ab'' \<and>
   st_get (PrefixStore LittleEndian ''ab'' (HashStore LittleEndian 0)) ''x''
     (snd (st_set (PrefixStore LittleEndian ''a'' (HashStore LittleEndian 0)) ''bx'' [1] Map.empty))
   = (Inr [1], [''abx'' \<mapsto> [1]])"
  by (simp add: PrefixStore_def PrefixStore_get_def PrefixStore_set_def HashStore_def
      HashStore_get_def HashStore_set_def)

text \<open>
  C4, amended. Two prefix decorators with distinct prefixes over the same in-process store
  map the same logical key to different physical keys: a \<open>set\<close> through A on \<open>x\<close>
  changes nothing of what \<open>get\<close> through B on \<open>x\<close> returns. For every pair of logical
  keys, \<open>set\<close> through A on the one is invisible to \<open>get\<close> through B on the other when
  neither prefix is a prefix of the other.
\<close>

theorem prefix_isolation:
  "(pA \<noteq> pB \<longrightarrow>
      fst (st_get (PrefixStore bo pB (HashStore bo kNoTimeout)) x
             (snd (st_set (PrefixStore bo pA (HashStore bo kNoTimeout)) x v m)))
      = fst (st_get (PrefixStore bo pB (HashStore bo kNoTimeout)) x m)) \<and>
   (\<not> prefix pA' pB' \<and> \<not> prefix pB' pA' \<longrightarrow>
      fst (st_get (PrefixStore bo pB' (HashStore bo kNoTimeout)) y
             (snd (st_set (PrefixStore bo pA' (HashStore bo kNoTimeout)) x v m)))
      = fst (st_get (PrefixStore bo pB' (HashStore bo kNoTimeout)) y m))"
proof (intro conjI impI)
  assume "pA \<noteq> pB"
  then have "pB @ x \<noteq> pA @ x" by simp
  then show "fst (st_get (PrefixStore bo pB (HashStore bo kNoTimeout)) x
             (snd (st_set (PrefixStore bo pA (HashStore bo kNoTimeout)) x v m)))
      = fst (st_get (PrefixStore bo pB (HashStore bo kNoTimeout)) x m)"
    by (simp add: PrefixStore_def PrefixStore_get_def PrefixStore_set_def HashStore_def
        HashStore_get_after_set_other)
next
  assume "\<not> prefix pA' pB' \<and> \<not> prefix pB' pA'"
  then have "pB' @ y \<noteq> pA' @ x"
    using append_not_prefix_neq [of pB' pA' y x] by simp
  then show "fst (st_get (PrefixStore bo pB' (HashStore bo kNoTimeout)) y
             (snd (st_set (PrefixStore bo pA' (HashStore bo kNoTimeout)) x v m)))
      = fst (st_get (PrefixStore bo pB' (HashStore bo kNoTimeout)) y m)"
    by (simp add: PrefixStore_def PrefixStore_get_def PrefixStore_set_def HashStore_def
        HashStore_get_after_set_other)
qed

theorem prefix_isolation_witness:
  "''a'' \<noteq> ''ab'' \<and>
   fst (st_get (PrefixStore LittleEndian ''ab'' (HashStore LittleEndian 0)) ''x''
          (snd (st_set (PrefixStore LittleEndian ''a'' (HashStore LittleEndian 0)) ''x'' [1] Map.empty)))
     = Inl (RuntimeError ''Key not found: abx'') \<and>
   \<not> prefix ''a/'' ''b/'' \<and> \<not> prefix ''b/'' ''a/'' \<and>
   fst (st_get (PrefixStore LittleEndian ''b/'' (HashStore LittleEndian 0)) ''y''
          (snd (st_set (PrefixStore LittleEndian ''a/'' (HashStore LittleEndian 0)) ''x'' [1] Map.empty)))
     = Inl (RuntimeError ''Key not found: b/y'')"
  using prefix_isolation [of "''a''" "''ab''" LittleEndian 0 "''x''" "[1]" Map.empty "''a/''" "''b/''" "''y''"]
  by (simp add: PrefixStore_def PrefixStore_get_def HashStore_def HashStore_get_def)

text \<open>
  C7. Over a backing store without v2 support, \<open>multi_set\<close> on two keys through a prefix
  decorator (the keys \<open>a\<close> and \<open>b\<close> of the specification among them) returns the
  result and leaves the state of two sequential calls of \<open>set\<close> on the backing store
  with the keys \<open>prefix + a\<close> and \<open>prefix + b\<close>: the prefix is applied once per key.
\<close>

theorem prefix_multi_set_fallback:
  "\<not> st_has_v2_support store \<Longrightarrow>
   st_multi_set (PrefixStore bo pfx store) [a, b] [v1, v2] s
     = two_sequential_sets store (pfx @ a) v1 (pfx @ b) v2 s"
  by (simp add: PrefixStore_def PrefixStore_multi_set_def PrefixStore_set_def two_sequential_sets_def
      split: prod.split sum.split)

theorem prefix_multi_set_fallback_witness:
  "\<not> st_has_v2_support (HashStore LittleEndian 0) \<and>
   st_multi_set (PrefixStore LittleEndian ''p/'' (HashStore LittleEndian 0)) [''a'', ''b''] [[1], [2]] Map.empty
     = two_sequential_sets (HashStore LittleEndian 0) ''p/a'' [1] ''p/b'' [2] Map.empty \<and>
   two_sequential_sets (HashStore LittleEndian 0) ''p/a'' [1] ''p/b'' [2] Map.empty
     = (Inr (), [''p/a'' \<mapsto> [1], ''p/b'' \<mapsto> [2]])"
proof -
  have h: "\<not> st_has_v2_support (HashStore LittleEndian 0)"
    by (simp add: HashStore_def Store_has_v2_support_def)
  have v: "two_sequential_sets (HashStore LittleEndian 0) ''p/a'' [1] ''p/b'' [2] Map.empty
     = (Inr (), [''p/a'' \<mapsto> [1], ''p/b'' \<mapsto> [2]])"
    by (simp add: two_sequential_sets_def HashStore_def HashStore_set_def)
  show ?thesis
    using h v prefix_multi_set_fallback [OF h, of LittleEndian "''p/''" "''a''" "''b''" "[1]" "[2]" Map.empty]
    by simp
qed

section \<open>Reading a key that was never set\<close>




subsection \<open>The path of a plain name\<close>









subsection \<open>The keys that get misses\<close>




section \<open>What get and wait leave alone\<close>

lemma HashStore_get_frame: "snd (HashStore_get k m) = m"
  by (simp add: HashStore_get_def split: option.split)

lemma HashStore_multi_get_frame: "snd (Store_multi_get HashStore_get keys m) = m"
proof (induction keys)
  case Nil
  then show ?case by simp
next
  case (Cons k ks)
  obtain r where g: "HashStore_get k m = (r, m)"
    using HashStore_get_frame [of k m] by (cases "HashStore_get k m") simp
  obtain rs where gs: "Store_multi_get HashStore_get ks m = (rs, m)"
    using Cons.IH by (cases "Store_multi_get HashStore_get ks m") simp
  show ?case
    by (simp add: g gs split: sum.split)
qed

lemma HashStore_wait_frame:
  "list_all (\<lambda>ev. fst ev = []) evs \<Longrightarrow> snd (HashStore_wait kNoTimeout keys t evs m) = m"
  by (induction evs arbitrary: m) auto

lemma FileStore_wait_frame:
  "list_all (\<lambda>ev. snd ev = []) evs \<Longrightarrow> snd (FileStore_wait base keys t evs fs) = fs"
  by (induction evs arbitrary: fs) (auto split: sum.split)

lemma other_sets_append: "other_sets (xs @ ys) m = other_sets ys (other_sets xs m)"
  by (induction xs arbitrary: m) auto

lemma HashStore_wait_only_other_sets:
  "\<exists>n\<le>length evs. snd (HashStore_wait kNoTimeout keys t evs m) = other_sets (concat (map fst (take n evs))) m"
proof (induction evs arbitrary: m)
  case Nil
  then show ?case by simp
next
  case (Cons ev evs)
  obtain sets status where ev: "ev = (sets, status)"
    by (cases ev)
  from Cons.IH [of "other_sets sets m"] obtain n where
    n: "n \<le> length evs"
      "snd (HashStore_wait kNoTimeout keys t evs (other_sets sets m))
         = other_sets (concat (map fst (take n evs))) (other_sets sets m)"
    by blast
  show ?case
  proof (cases "allFound m keys")
    case True
    then show ?thesis
      by (intro exI [of _ 0]) (simp add: ev)
  next
    case False
    show ?thesis
    proof (cases "t \<noteq> kNoTimeout \<and> status = timeout")
      case True
      with False show ?thesis
        by (intro exI [of _ 1]) (simp add: ev)
    next
      case False
      with \<open>\<not> allFound m keys\<close> n show ?thesis
        by (intro exI [of _ "Suc n"]) (auto simp: ev other_sets_append)
    qed
  qed
qed

text \<open>
  C9. \<open>get\<close> returns the state it was given, whether it finds the key or throws, and so
  does \<open>multi_get\<close>. \<open>wait\<close> writes nothing itself: when no other thread or process
  writes while it sleeps, the state after it is the state before it, whether it has
  returned, thrown the timeout or is still blocked.
\<close>

theorem get_wait_frame:
  "snd (HashStore_get k m) = m \<and>
   snd (Store_multi_get HashStore_get keys m) = m \<and>
   snd (FileStore_get base k fs) = fs \<and>
   (list_all (\<lambda>ev. fst ev = []) evs \<longrightarrow> snd (HashStore_wait kNoTimeout keys t evs m) = m) \<and>
   (list_all (\<lambda>ev. snd ev = []) fevs \<longrightarrow> snd (FileStore_wait base keys t fevs fs) = fs)"
  by (simp add: HashStore_get_frame HashStore_multi_get_frame HashStore_wait_frame
      FileStore_get_frame FileStore_wait_frame)

theorem get_wait_frame_witness:
  "list_all (\<lambda>ev. fst ev = []) [([], no_timeout), ([], timeout)] \<and>
   HashStore_wait 0 [''k''] 15 [([], no_timeout), ([], timeout)] Map.empty
     = (Threw (RuntimeError ''Wait timeout''), Map.empty) \<and>
   list_all (\<lambda>ev. snd ev = []) [(10 :: int, []), (20, [])] \<and>
   FileStore_wait ''/tmp/s'' [''k''] 15 [(10, []), (20, [])] tmp_s
     = (Threw (RuntimeError ''Timeout waiting for keys''), tmp_s)"
  using get_wait_frame [of "''k''" Map.empty "[''k'']" "''/tmp/s''" tmp_s
      "[([], no_timeout), ([], timeout)]" 0 15 "[(10, []), (20, [])]"]
  by (simp add: stat_tmp_s_k)

section \<open>The empty value on the filesystem store\<close>

text \<open>
  C10. When \<open>set(k, empty)\<close> has returned on the filesystem store, the key is present:
  \<open>wait({k}, t)\<close> returns at its first poll, for every timeout and without sleeping,
  and \<open>get(k)\<close> returns the empty byte sequence.
\<close>

theorem FileStore_empty_value_published:
  "FileStore_set base k [] fs = (Inr (), fs') \<Longrightarrow>
   FileStore_wait base [k] t evs fs' = (Returned, fs') \<and> FileStore_get base k fs' = (Inr [], fs')"
proof -
  assume "FileStore_set base k [] fs = (Inr (), fs')"
  then obtain p where p: "resolve fs (realPath base k) = Inr p" "node_at fs p \<noteq> Some Directory"
    "p \<noteq> []" "fs' = fs\<lparr>nodes := (nodes fs)(p \<mapsto> RegularFile [])\<rparr>"
    using FileStore_set_Inr [of base k "[]" fs "()" fs'] by auto
  have res: "resolve fs' (realPath base k) = Inr p"
    unfolding p(4) by (rule resolve_after_write [OF p(2) p(1)])
  have written: "node_at fs' p = Some (RegularFile [])"
    using p(3) by (simp add: p(4) node_at_def)
  from res written have ready: "check_ready base fs' [k] = Inr True"
    by (simp add: stat_def)
  have "FileStore_wait base [k] t evs fs' = (Returned, fs')"
    using ready by (cases evs) auto
  moreover have "FileStore_get base k fs' = (Inr [], fs')"
    using res written by (simp add: FileStore_get_def)
  ultimately show ?thesis by simp
qed

theorem FileStore_empty_value_published_witness:
  "FileStore_set ''/tmp/s'' ''k'' [] tmp_s
     = (Inr (), tmp_s\<lparr>nodes := (nodes tmp_s)([''tmp'', ''s'', ''k''] \<mapsto> RegularFile [])\<rparr>) \<and>
   FileStore_wait ''/tmp/s'' [''k''] 0 []
     (tmp_s\<lparr>nodes := (nodes tmp_s)([''tmp'', ''s'', ''k''] \<mapsto> RegularFile [])\<rparr>)
     = (Returned, tmp_s\<lparr>nodes := (nodes tmp_s)([''tmp'', ''s'', ''k''] \<mapsto> RegularFile [])\<rparr>) \<and>
   FileStore_get ''/tmp/s'' ''k''
     (tmp_s\<lparr>nodes := (nodes tmp_s)([''tmp'', ''s'', ''k''] \<mapsto> RegularFile [])\<rparr>)
     = (Inr [], tmp_s\<lparr>nodes := (nodes tmp_s)([''tmp'', ''s'', ''k''] \<mapsto> RegularFile [])\<rparr>)"
proof -
  have h: "FileStore_set ''/tmp/s'' ''k'' [] tmp_s
     = (Inr (), tmp_s\<lparr>nodes := (nodes tmp_s)([''tmp'', ''s'', ''k''] \<mapsto> RegularFile [])\<rparr>)"
    by (simp add: FileStore_set_def resolve_tmp_s_k) (simp add: node_at_def tmp_s_def)
  show ?thesis
    using h FileStore_empty_value_published [OF h, of 0 "[]"] by simp
qed

section \<open>Waiting without a timeout\<close>

text \<open>
  With the timeout \<open>kNoTimeout\<close> the in-process \<open>wait\<close> never throws, and it returns
  only with all keys found. \<open>FileStore::wait\<close> does not compare its timeout with
  \<open>kNoTimeout\<close>: it throws as soon as a poll fails and the clock shows more than the
  timeout, whatever the timeout is.
\<close>

lemma HashStore_wait_kNoTimeout_never_throws:
  "fst (HashStore_wait kNoTimeout keys kNoTimeout evs m) \<noteq> Threw e"
  by (induction evs arbitrary: m) (auto split: if_splits)

lemma HashStore_wait_Returned:
  "HashStore_wait kNoTimeout keys t evs m = (Returned, m') \<Longrightarrow> allFound m' keys"
  by (induction evs arbitrary: m) (auto split: if_splits)

lemma FileStore_wait_deadline:
  "check_ready base fs keys = Inr False \<Longrightarrow> t < elapsed \<Longrightarrow>
   FileStore_wait base keys t ((elapsed, writes) # evs) fs
     = (Threw (RuntimeError ''Timeout waiting for keys''), fs)"
  by simp

lemma FileStore_wait_Returned:
  "FileStore_wait base keys t evs fs = (Returned, fs') \<Longrightarrow> check_ready base fs' keys = Inr True"
  by (induction evs arbitrary: fs) (auto split: sum.splits if_splits)

text \<open>
  With a sentinel of 0 ms and the key never published, the second poll of
  \<open>FileStore::wait\<close>, after the sleep of 10 ms, ends in the timeout error.
\<close>

lemma FileStore_wait_zero_sentinel:
  "FileStore_wait ''/tmp/s'' [''k''] 0 [(0, []), (10, [])] tmp_s
     = (Threw (RuntimeError ''Timeout waiting for keys''), tmp_s)"
  by (simp add: stat_tmp_s_k)

text \<open>
  C2. Waiting with the no-timeout sentinel is to block until every key is present and
  never to end in a timeout error. The filesystem store does end so: waiting with the
  sentinel for a key at whose path nothing exists and that nobody publishes,
  \<open>FileStore::wait\<close> throws its timeout error once the clock shows one millisecond more
  than the sentinel's value. On the same input \<open>HashStore::wait\<close> stays blocked, even
  when the condition variable reports a timeout.
\<close>

theorem FileStore_wait_ignores_kNoTimeout:
  "stat fs (realPath base k) = Some ENOENT \<Longrightarrow>
   FileStore_wait base [k] kNoTimeout [(kNoTimeout + 1, [])] fs
     = (Threw (RuntimeError ''Timeout waiting for keys''), fs) \<and>
   HashStore_wait kNoTimeout [k] kNoTimeout [([], timeout)] Map.empty = (Blocked, Map.empty)"
  by simp

theorem FileStore_wait_ignores_kNoTimeout_witness:
  "stat tmp_s (realPath ''/tmp/s'' ''k'') = Some ENOENT \<and>
   FileStore_wait ''/tmp/s'' [''k''] 0 [(1, [])] tmp_s
     = (Threw (RuntimeError ''Timeout waiting for keys''), tmp_s) \<and>
   HashStore_wait 0 [''k''] 0 [([], timeout)] Map.empty = (Blocked, Map.empty)"
  using FileStore_wait_ignores_kNoTimeout [OF stat_tmp_s_k, of 0] stat_tmp_s_k
  by simp

end
